theory Spec2Isabelle
  imports Main "HOL-Library.Word"
begin

unbundle bit_operations_syntax

section \<open>asus\_qca\_fix\_checksum: checksum fix for ASUS QCA/QCN uImage files\<close>

text \<open>
  A shallow embedding of \<^verbatim>\<open>src/asus_qca_fix_checksum.c\<close>.

  The image buffer is a list of bytes whose length is the size of the allocation. Every
  access of the C code through \<^verbatim>\<open>image\<close> or \<^verbatim>\<open>header\<close> is an explicit read or write
  at a byte offset; an access outside the allocation is undefined behaviour in C and is the
  result \<open>Inl OutOfBounds\<close> here. A message on \<^verbatim>\<open>stderr\<close> followed by \<^verbatim>\<open>exit(1)\<close> is
  \<open>Inl (Fatal message)\<close>.

  Platform: \<^verbatim>\<open>size_t\<close> and \<^verbatim>\<open>off_t\<close> have 64 bits (LP64), \<^verbatim>\<open>int\<close> has 32 bits; the
  byte order of the host is a parameter, since the two 16-bit members of the tail are
  stored in host order. Neither struct has padding: every member of \<^verbatim>\<open>TAIL\<close> has
  alignment 1 or 2 and the 16-bit members sit at offsets 16 and 18, so \<^verbatim>\<open>sizeof(TAIL)\<close> is 32
  and \<^verbatim>\<open>sizeof(image_header_t)\<close> is 64.
\<close>

subsection \<open>Machine integers and byte order\<close>

type_synonym u8 = "8 word"
type_synonym u16 = "16 word"
type_synonym u32 = "32 word"
type_synonym u64 = "64 word"

datatype endian = LittleEndian | BigEndian

text \<open>The value of a byte sequence read most significant byte first.\<close>

definition be_word :: "u8 list \<Rightarrow> 'a::len word" where
  "be_word bs = foldl (\<lambda>acc b. push_bit 8 acc OR ucast b) 0 bs"

text \<open>The object representation of a 16-bit and of a 32-bit integer, most significant byte first.\<close>

definition be_bytes16 :: "u16 \<Rightarrow> u8 list" where
  "be_bytes16 x = [ucast (drop_bit 8 x), ucast x]"

definition be_bytes32 :: "u32 \<Rightarrow> u8 list" where
  "be_bytes32 x = [ucast (drop_bit 24 x), ucast (drop_bit 16 x), ucast (drop_bit 8 x), ucast x]"

text \<open>Loading and storing an integer object on a host of the given byte order.\<close>

definition load_u32 :: "endian \<Rightarrow> u8 list \<Rightarrow> u32" where
  "load_u32 e bs = (case e of BigEndian \<Rightarrow> be_word bs | LittleEndian \<Rightarrow> be_word (rev bs))"

definition store_u32 :: "endian \<Rightarrow> u32 \<Rightarrow> u8 list" where
  "store_u32 e x = (case e of BigEndian \<Rightarrow> be_bytes32 x | LittleEndian \<Rightarrow> rev (be_bytes32 x))"

definition store_u16 :: "endian \<Rightarrow> u16 \<Rightarrow> u8 list" where
  "store_u16 e x = (case e of BigEndian \<Rightarrow> be_bytes16 x | LittleEndian \<Rightarrow> rev (be_bytes16 x))"

text \<open>\<^verbatim>\<open>ntohl\<close> and \<^verbatim>\<open>htonl\<close> of \<^verbatim>\<open><arpa/inet.h>\<close>: the identity on a big-endian host, a byte swap
  on a little-endian one.\<close>

definition bswap32 :: "u32 \<Rightarrow> u32" where
  "bswap32 x = push_bit 24 (x AND 0xff) OR push_bit 8 (x AND 0xff00)
                OR (drop_bit 8 x AND 0xff00) OR drop_bit 24 x"

definition ntohl :: "endian \<Rightarrow> u32 \<Rightarrow> u32" where
  "ntohl e x = (case e of BigEndian \<Rightarrow> x | LittleEndian \<Rightarrow> bswap32 x)"

definition htonl :: "endian \<Rightarrow> u32 \<Rightarrow> u32" where
  "htonl e x = (case e of BigEndian \<Rightarrow> x | LittleEndian \<Rightarrow> bswap32 x)"

subsection \<open>zlib's crc32\<close>

text \<open>
  \<^verbatim>\<open>crc32(crc, buf, len)\<close> of \<^verbatim>\<open><zlib.h>\<close> is a library function; this is the CRC-32 of
  RFC 1952 that it computes (reflected polynomial \<open>0xedb88320\<close>, the running value
  complemented on entry and on exit), one bit at a time.
\<close>

definition crc_bit :: "u32 \<Rightarrow> u32" where
  "crc_bit c = (if bit c 0 then drop_bit 1 c XOR 0xedb88320 else drop_bit 1 c)"

definition crc_byte :: "u32 \<Rightarrow> u8 \<Rightarrow> u32" where
  "crc_byte c b =
     crc_bit (crc_bit (crc_bit (crc_bit (crc_bit (crc_bit (crc_bit (crc_bit (c XOR ucast b))))))))"

definition crc32 :: "u32 \<Rightarrow> u8 list \<Rightarrow> u32" where
  "crc32 crc buf = foldl crc_byte (crc XOR 0xffffffff) buf XOR 0xffffffff"

subsection \<open>The data model\<close>

text \<open>\<^verbatim>\<open>version_t\<close> and \<^verbatim>\<open>TAIL\<close>. The arrays \<^verbatim>\<open>productid[MAX_STRING]\<close> and \<^verbatim>\<open>hw[MAX_VER]\<close>
  are lists; \<open>wf_TAIL\<close> says that they have the declared 12 and 5 elements.\<close>

record version_t =
  major :: u8
  minor :: u8

record TAIL =
  kernel :: version_t
  fs :: version_t
  productid :: "u8 list"
  sn :: u16
  en :: u16
  pkey :: u8
  key :: u8
  hw :: "version_t list"

definition MAX_STRING :: nat where "MAX_STRING = 12"
definition MAX_VER :: nat where "MAX_VER = 5"
definition IH_NMLEN :: nat where "IH_NMLEN = 32"

definition wf_TAIL :: "TAIL \<Rightarrow> bool" where
  "wf_TAIL t \<longleftrightarrow> length (productid t) = MAX_STRING \<and> length (hw t) = MAX_VER"

text \<open>The object representation of \<^verbatim>\<open>version_t\<close> and of \<^verbatim>\<open>TAIL\<close>, members in declaration order.\<close>

definition version_bytes :: "version_t \<Rightarrow> u8 list" where
  "version_bytes v = [major v, minor v]"

definition tail_bytes :: "endian \<Rightarrow> TAIL \<Rightarrow> u8 list" where
  "tail_bytes e t =
     version_bytes (kernel t) @ version_bytes (fs t) @ productid t
     @ store_u16 e (sn t) @ store_u16 e (en t) @ [pkey t, key t]
     @ concat (map version_bytes (hw t))"

text \<open>Offsets of the members of \<^verbatim>\<open>image_header_t\<close> that the program touches, and its size.\<close>

definition off_ih_hcrc :: nat where "off_ih_hcrc = 4"
definition off_ih_size :: nat where "off_ih_size = 12"
definition off_u :: nat where "off_u = 32"
definition sizeof_image_header :: nat where "sizeof_image_header = 64"

subsection \<open>Memory accesses and failures\<close>

text \<open>The line feed that ends a message.\<close>

definition nl :: string where
  "nl = [CHR 0x0A]"

datatype error = Fatal string | OutOfBounds

definition rd :: "u8 list \<Rightarrow> nat \<Rightarrow> error + u8" where
  "rd img i = (if i < length img then Inr (img ! i) else Inl OutOfBounds)"

definition rd_bytes :: "u8 list \<Rightarrow> nat \<Rightarrow> nat \<Rightarrow> error + u8 list" where
  "rd_bytes img off n =
     (if off + n \<le> length img then Inr (take n (drop off img)) else Inl OutOfBounds)"

definition wr_bytes :: "u8 list \<Rightarrow> nat \<Rightarrow> u8 list \<Rightarrow> error + u8 list" where
  "wr_bytes img off bs =
     (if off + length bs \<le> length img
      then Inr (take off img @ bs @ drop (off + length bs) img)
      else Inl OutOfBounds)"

text \<open>Sequencing: the first failing access ends the run.\<close>

definition bind_err :: "error + 'a \<Rightarrow> ('a \<Rightarrow> error + 'b) \<Rightarrow> error + 'b" where
  "bind_err m f = (case m of Inl err \<Rightarrow> Inl err | Inr x \<Rightarrow> f x)"

subsection \<open>fix\_checksum\<close>

text \<open>
  \<^verbatim>\<open>checksum_a + ~checksum_b\<close>: both operands are promoted to \<^verbatim>\<open>int\<close>, the sum is converted
  to \<^verbatim>\<open>uint8_t\<close> by the assignment to \<^verbatim>\<open>tail->key\<close>.
\<close>

definition calc_key :: "u8 \<Rightarrow> u8 \<Rightarrow> u8" where
  "calc_key checksum_a checksum_b =
     ucast ((ucast checksum_a :: 32 word) + NOT (ucast checksum_b :: 32 word))"

text \<open>
  \<^verbatim>\<open>(ntohl(header->ih_size) + sizeof(image_header_t)) >> 1\<close>: the sum and the shift are
  computed in \<^verbatim>\<open>size_t\<close>, the result is converted to \<^verbatim>\<open>uint32_t\<close>.
\<close>

definition calc_checksum_b_offset :: "endian \<Rightarrow> u32 \<Rightarrow> u32" where
  "calc_checksum_b_offset e ih_size =
     ucast (drop_bit 1 ((ucast (ntohl e ih_size) :: u64) + of_nat sizeof_image_header))"

text \<open>The offset as the function computes it from the buffer: bytes 12 to 15 hold \<^verbatim>\<open>ih_size\<close>.\<close>

definition checksum_b_offset_of :: "endian \<Rightarrow> u8 list \<Rightarrow> u32" where
  "checksum_b_offset_of e img =
     calc_checksum_b_offset e (load_u32 e (take 4 (drop off_ih_size img)))"

text \<open>
  The function returns the buffer and the caller's \<^verbatim>\<open>TAIL\<close> as it leaves them. The
  statements are in the order of the source: \<^verbatim>\<open>header->ih_size\<close> and \<^verbatim>\<open>image[0]\<close> are read
  before \<^verbatim>\<open>image_len\<close> is compared. \<^verbatim>\<open>image_len\<close> is an argument of its own, as in the source:
  \<open>img\<close> is the memory that \<^verbatim>\<open>image\<close> points to, which \<open>main\<close> allocates with just that length.
\<close>

definition fix_checksum :: "endian \<Rightarrow> u8 list \<Rightarrow> int \<Rightarrow> TAIL \<Rightarrow> error + (u8 list \<times> TAIL)" where
  "fix_checksum e img image_len tail =
     bind_err (rd_bytes img off_ih_size 4) (\<lambda>ih_size.
     let checksum_a_offset = 0;
         checksum_b_offset = calc_checksum_b_offset e (load_u32 e ih_size) in
     bind_err (rd img checksum_a_offset) (\<lambda>checksum_a.
     if image_len < uint checksum_b_offset then Inl (Fatal (''too small uImage size'' @ nl))
     else
     bind_err (rd img (unat checksum_b_offset)) (\<lambda>checksum_b.
     let tail1 = tail\<lparr>key := calc_key checksum_a checksum_b\<rparr> in
     bind_err (rd_bytes img off_u (MAX_STRING - 1)) (\<lambda>name.
     let tail2 = tail1\<lparr>productid := name @ drop (MAX_STRING - 1) (productid tail1)\<rparr> in
     bind_err (wr_bytes img off_u (tail_bytes e tail2)) (\<lambda>img1.
     bind_err (wr_bytes img1 off_ih_hcrc (store_u32 e 0)) (\<lambda>img2.
     bind_err (rd_bytes img2 0 sizeof_image_header) (\<lambda>hdr.
     let recalc_crc = crc32 0 hdr in
     bind_err (wr_bytes img2 off_ih_hcrc (store_u32 e (htonl e recalc_crc))) (\<lambda>img3.
     Inr (img3, tail2)))))))))"

subsection \<open>The version string: sscanf\<close>

text \<open>
  \<^verbatim>\<open>sscanf(version, "%hhu.%hhu.%hhu.%hhu.%hu.%hu", ...)\<close> is a library call. Each \<^verbatim>\<open>u\<close>
  directive skips white space and reads an optionally signed decimal integer; a literal
  \<^verbatim>\<open>.\<close> must match the next character. The scan stops at the first directive that fails
  and returns the number of values stored, or \<^verbatim>\<open>EOF\<close> when the input ends before the first
  value. The digits are converted as \<^verbatim>\<open>strtoul\<close> does with a 64-bit \<^verbatim>\<open>unsigned long\<close>
  (saturating, negated after a minus sign) and the value is cut to the width of the
  target, which is what glibc does with a value that the target cannot hold.
\<close>

definition isspace :: "char \<Rightarrow> bool" where
  "isspace c \<longleftrightarrow> c \<in> set [CHR 0x20, CHR 0x09, CHR 0x0A, CHR 0x0B, CHR 0x0C, CHR 0x0D]"

definition isdigit :: "char \<Rightarrow> bool" where
  "isdigit c \<longleftrightarrow> (48::nat) \<le> of_char c \<and> of_char c \<le> (57::nat)"

definition dec_val :: "string \<Rightarrow> int" where
  "dec_val ds = foldl (\<lambda>a c. 10 * a + (of_char c - 48)) 0 ds"

definition strtoul_val :: "bool \<Rightarrow> int \<Rightarrow> u64" where
  "strtoul_val neg n =
     (if 2 ^ 64 \<le> n then - 1 else if neg then - word_of_int n else word_of_int n)"

datatype scan = Conv u64 string | MatchFail | InputFail

definition scan_u :: "string \<Rightarrow> scan" where
  "scan_u s =
     (case dropWhile isspace s of
        [] \<Rightarrow> InputFail
      | c # cs \<Rightarrow>
          let neg = (c = CHR ''-'');
              s1 = (if c = CHR ''-'' \<or> c = CHR ''+'' then cs else c # cs);
              ds = takeWhile isdigit s1
          in if ds = [] then MatchFail
             else Conv (strtoul_val neg (dec_val ds)) (dropWhile isdigit s1))"

definition scan_dot :: "string \<Rightarrow> string option" where
  "scan_dot s = (case s of [] \<Rightarrow> None | c # cs \<Rightarrow> if c = CHR ''.'' then Some cs else None)"

text \<open>The values converted by \<open>n\<close> \<^verbatim>\<open>u\<close> directives separated by \<^verbatim>\<open>.\<close>, in order.\<close>

fun scan_fields :: "nat \<Rightarrow> string \<Rightarrow> u64 list" where
  "scan_fields 0 s = []"
| "scan_fields (Suc n) s =
     (case scan_u s of
        Conv v rest \<Rightarrow>
          v # (if n = 0 then []
               else case scan_dot rest of None \<Rightarrow> [] | Some rest' \<Rightarrow> scan_fields n rest')
      | MatchFail \<Rightarrow> []
      | InputFail \<Rightarrow> [])"

definition EOF :: int where
  "EOF = - 1"

text \<open>The \<open>i\<close>-th pointer argument of the call receives the value: four \<^verbatim>\<open>unsigned char\<close>
  members, then the two \<^verbatim>\<open>unsigned short\<close> ones.\<close>

definition assign_field :: "nat \<Rightarrow> u64 \<Rightarrow> TAIL \<Rightarrow> TAIL" where
  "assign_field i v t =
     (if i = 0 then t\<lparr>kernel := (kernel t)\<lparr>major := ucast v\<rparr>\<rparr>
      else if i = 1 then t\<lparr>kernel := (kernel t)\<lparr>minor := ucast v\<rparr>\<rparr>
      else if i = 2 then t\<lparr>fs := (fs t)\<lparr>major := ucast v\<rparr>\<rparr>
      else if i = 3 then t\<lparr>fs := (fs t)\<lparr>minor := ucast v\<rparr>\<rparr>
      else if i = 4 then t\<lparr>sn := ucast v\<rparr>
      else t\<lparr>en := ucast v\<rparr>)"

fun assign_fields :: "nat \<Rightarrow> u64 list \<Rightarrow> TAIL \<Rightarrow> TAIL" where
  "assign_fields i [] t = t"
| "assign_fields i (v # vs) t = assign_fields (Suc i) vs (assign_field i v t)"

definition sscanf_version :: "string \<Rightarrow> TAIL \<Rightarrow> int \<times> TAIL" where
  "sscanf_version s t =
     (let vs = scan_fields 6 s
      in (if vs = [] \<and> scan_u s = InputFail then EOF else int (length vs),
          assign_fields 0 vs t))"

subsection \<open>main\<close>

text \<open>
  What the run depends on outside the program: the byte order of the host, the outcome of
  each system call, and the value of \<^verbatim>\<open>errno\<close> that a failure reports. \<open>open_input\<close> gives
  the contents of the file, or \<open>None\<close> when \<^verbatim>\<open>open\<close> fails; \<open>write_ret\<close> is the return value
  of \<^verbatim>\<open>write\<close> for a request of the given size.
\<close>

record env =
  byte_order :: endian
  open_input :: "string \<Rightarrow> u8 list option"
  open_output :: "string \<Rightarrow> bool"
  fstat_ok :: bool
  malloc_ok :: "nat \<Rightarrow> bool"
  read_ok :: bool
  write_ret :: "nat \<Rightarrow> int"
  errno :: int

text \<open>What a run leaves: how the process ended, the texts sent to \<^verbatim>\<open>stderr\<close> (one per
  \<^verbatim>\<open>fprintf\<close>), and the bytes that \<^verbatim>\<open>write\<close> put into the output file, if it was called.
  (\<^verbatim>\<open>open\<close> with \<^verbatim>\<open>O_CREAT\<close> creates the output file before the image is looked at; the
  record is about its contents.) \<open>Undefined\<close> is a run with an access outside the buffer.\<close>

datatype outcome = Exit int | Undefined

record run =
  status :: outcome
  err :: "string list"
  written :: "u8 list option"

text \<open>The variables of \<^verbatim>\<open>main\<close> that the option loop sets, with \<^verbatim>\<open>stderr\<close> so far.\<close>

record locals =
  m_infname :: "string option"
  m_outfname :: "string option"
  m_version :: "string option"
  m_tail :: TAIL
  m_stderr :: "string list"

text \<open>\<^verbatim>\<open>TAIL tail = {}\<close>: every member is zero.\<close>

definition zero_version :: version_t where
  "zero_version = \<lparr>major = 0, minor = 0\<rparr>"

definition zero_tail :: TAIL where
  "zero_tail = \<lparr>kernel = zero_version, fs = zero_version, productid = replicate MAX_STRING 0,
                 sn = 0, en = 0, pkey = 0, key = 0, hw = replicate MAX_VER zero_version\<rparr>"

definition init_locals :: locals where
  "init_locals = \<lparr>m_infname = None, m_outfname = None, m_version = None,
                   m_tail = zero_tail, m_stderr = []\<rparr>"

text \<open>\<^verbatim>\<open>%d\<close> of a number.\<close>

fun show_nat :: "nat \<Rightarrow> string" where
  "show_nat n =
     (if n < 10 then [char_of (48 + n)] else show_nat (n div 10) @ [char_of (48 + n mod 10)])"

definition show_int :: "int \<Rightarrow> string" where
  "show_int i = (if i < 0 then CHR ''-'' # show_nat (nat (- i)) else show_nat (nat i))"

text \<open>The warning for a version that does not give six values.\<close>

definition version_warning :: "string \<Rightarrow> string" where
  "version_warning v = ''Version '' @ v @ '' doesn't match suppored 6-digits format'' @ nl"

text \<open>
  One round of the \<^verbatim>\<open>getopt\<close> loop; \<^verbatim>\<open>getopt\<close> itself is represented by what it returns,
  the option character with \<^verbatim>\<open>optarg\<close>. There is no \<^verbatim>\<open>exit\<close> in the loop.
\<close>

definition opt_step :: "locals \<Rightarrow> char \<times> string \<Rightarrow> locals" where
  "opt_step l oa =
     (case oa of (opt, optarg) \<Rightarrow>
        if opt = CHR ''i'' then l\<lparr>m_infname := Some optarg\<rparr>
        else if opt = CHR ''o'' then l\<lparr>m_outfname := Some optarg\<rparr>
        else if opt = CHR ''v'' then
          (case sscanf_version optarg (m_tail l) of (ret, t) \<Rightarrow>
             let l1 = l\<lparr>m_version := Some optarg, m_tail := t\<rparr>
             in if 6 \<noteq> ret
                then l1\<lparr>m_stderr := m_stderr l1 @ [version_warning optarg]\<rparr>
                else l1)
        else l)"

definition usage :: "string \<Rightarrow> string list" where
  "usage prog =
     [prog @ '' -i <input_uimage_file> -o <output_file>'' @ nl,
      [CHR 0x09, CHR 0x09] @ ''-v <asuswrt version (ex. 3.0.0.4.382.52482)>'']"

definition die :: "string list \<Rightarrow> string list \<Rightarrow> run" where
  "die sofar msgs = \<lparr>status = Exit 1, err = sofar @ msgs, written = None\<rparr>"

definition main :: "env \<Rightarrow> string \<Rightarrow> (char \<times> string) list \<Rightarrow> run" where
  "main env prog opts =
     (let l = foldl opt_step init_locals opts in
      if m_infname l = None \<or> m_outfname l = None \<or> m_version l = None
      then die (m_stderr l) (usage prog)
      else
      (case open_input env (the (m_infname l)) of
        None \<Rightarrow> die (m_stderr l)
          [''could not open input file. (errno = '' @ show_int (errno env) @ '')'' @ nl]
      | Some file \<Rightarrow>
         (if \<not> open_output env (the (m_outfname l)) then die (m_stderr l)
            [''could not open output file. (errno = '' @ show_int (errno env) @ '')'' @ nl]
          else if \<not> fstat_ok env then die (m_stderr l)
            [''could not fstat input file. (errno = '' @ show_int (errno env) @ '')'' @ nl]
          else if \<not> malloc_ok env (length file) then die (m_stderr l)
            [''buffer allocation failed'' @ nl]
          else if \<not> read_ok env then die (m_stderr l)
            [''could not read input file (errno = '' @ show_int (errno env) @ '').'' @ nl]
          else
          (case fix_checksum (byte_order env) file (int (length file)) (m_tail l) of
             Inl (Fatal msg) \<Rightarrow> die (m_stderr l) [msg]
           | Inl OutOfBounds \<Rightarrow> \<lparr>status = Undefined, err = m_stderr l, written = None\<rparr>
           | Inr (filebuf, t) \<Rightarrow>
              (let rsz = write_ret env (length file) in
               if rsz \<noteq> int (length file)
               then \<lparr>status = Exit 1,
                     err = m_stderr l @
                       [''could not write output file (errnor = '' @ show_int (errno env)
                        @ '').'' @ nl],
                     written = Some (take (nat rsz) filebuf)\<rparr>
               else \<lparr>status = Exit 0, err = m_stderr l, written = Some filebuf\<rparr>)))))"

subsection \<open>Running the program\<close>

text \<open>
  An environment in which every system call succeeds and every input file has the contents
  \<open>file\<close>, and the results of \<^verbatim>\<open>getopt\<close> for the command line
  \<^verbatim>\<open>-i in -o out -v <version>\<close>.
\<close>

definition file_env :: "endian \<Rightarrow> u8 list \<Rightarrow> env" where
  "file_env e file =
     \<lparr>byte_order = e, open_input = (\<lambda>name. Some file), open_output = (\<lambda>name. True),
      fstat_ok = True, malloc_ok = (\<lambda>n. True), read_ok = True, write_ret = int, errno = 0\<rparr>"

definition cmdline :: "string \<Rightarrow> (char \<times> string) list" where
  "cmdline v = [(CHR ''i'', ''in''), (CHR ''o'', ''out''), (CHR ''v'', v)]"

subsection \<open>Example data\<close>

text \<open>
  An image of 80 bytes: a header with \<^verbatim>\<open>ih_size\<close> 16 and the name \<^verbatim>\<open>RT-AC58U firmware\<close>,
  then 16 bytes of data. With the version \<^verbatim>\<open>3.0.0.4.382.52482\<close> on a little-endian host
  the program turns it into \<open>out80\<close>.
\<close>

definition img80 :: "u8 list" where
  "img80 =
     [0x27, 0x05, 0x19, 0x56, 0x12, 0x34, 0x56, 0x78, 0x5f, 0x00, 0x00, 0x01, 0, 0, 0, 16,
      0x80, 0, 0x80, 0, 0x80, 0, 0x80, 0, 0xde, 0xad, 0xbe, 0xef, 5, 2, 2, 3,
      0x52, 0x54, 0x2d, 0x41, 0x43, 0x35, 0x38, 0x55, 0x20, 0x66, 0x69, 0x72, 0x6d, 0x77, 0x61, 0x72,
      0x65, 0, 0, 0, 0, 0, 0, 0, 0, 0, 0, 0, 0, 0, 0, 0,
      1, 2, 3, 4, 5, 6, 7, 8, 9, 10, 11, 12, 13, 14, 15, 16]"

definition out80 :: "u8 list" where
  "out80 =
     [0x27, 0x05, 0x19, 0x56, 0x2d, 0x07, 0xc3, 0xdb, 0x5f, 0x00, 0x00, 0x01, 0, 0, 0, 16,
      0x80, 0, 0x80, 0, 0x80, 0, 0x80, 0, 0xde, 0xad, 0xbe, 0xef, 5, 2, 2, 3,
      3, 0, 0, 4, 0x52, 0x54, 0x2d, 0x41, 0x43, 0x35, 0x38, 0x55, 0x20, 0x66, 0x69, 0,
      0x7e, 0x01, 0x02, 0xcd, 0, 6, 0, 0, 0, 0, 0, 0, 0, 0, 0, 0,
      1, 2, 3, 4, 5, 6, 7, 8, 9, 10, 11, 12, 13, 14, 15, 16]"

definition tail80 :: TAIL where
  "tail80 =
     \<lparr>kernel = \<lparr>major = 3, minor = 0\<rparr>, fs = \<lparr>major = 0, minor = 4\<rparr>,
      productid = [0, 0, 0, 0, 0, 0, 0, 0, 0, 0, 0, 0], sn = 382, en = 52482, pkey = 0, key = 0,
      hw = [\<lparr>major = 0, minor = 0\<rparr>, \<lparr>major = 0, minor = 0\<rparr>, \<lparr>major = 0, minor = 0\<rparr>,
            \<lparr>major = 0, minor = 0\<rparr>, \<lparr>major = 0, minor = 0\<rparr>]\<rparr>"

definition tail80_out :: TAIL where
  "tail80_out =
     tail80\<lparr>key := 6, productid := [0x52, 0x54, 0x2d, 0x41, 0x43, 0x35, 0x38, 0x55, 0x20, 0x66, 0x69, 0]\<rparr>"

text \<open>A header alone whose \<^verbatim>\<open>ih_size\<close> is 64, so that the offset of the second byte is 64,
  the length of the file.\<close>

definition img64 :: "u8 list" where
  "img64 =
     [0x27, 0x05, 0x19, 0x56, 0, 0, 0, 0, 0x5f, 0x00, 0x00, 0x01, 0, 0, 0, 64,
      0x80, 0, 0x80, 0, 0x80, 0, 0x80, 0, 0xde, 0xad, 0xbe, 0xef, 5, 2, 2, 3,
      0x52, 0x54, 0x2d, 0x41, 0x43, 0x35, 0x38, 0x55, 0, 0, 0, 0, 0, 0, 0, 0,
      0, 0, 0, 0, 0, 0, 0, 0, 0, 0, 0, 0, 0, 0, 0, 0]"

text \<open>The first 16 bytes of a header whose \<^verbatim>\<open>ih_size\<close> is 1024, and the file of \<open>n\<close> bytes
  (\<open>n\<close> at least 16) that starts with them and goes on with the byte \<open>0x5a\<close>.\<close>

definition hdr1024 :: "u8 list" where
  "hdr1024 = [0x27, 0x05, 0x19, 0x56, 0, 0, 0, 0, 0x5f, 0x00, 0x00, 0x01, 0, 0, 4, 0]"

definition img1024 :: "nat \<Rightarrow> u8 list" where
  "img1024 n = hdr1024 @ replicate (n - 16) 0x5a"

section \<open>Facts about the model\<close>

subsection \<open>Byte order\<close>

lemma be_bytes32_be_word: "be_bytes32 (be_word [a, b, c, d]) = [a, b, c, d]"
  unfolding be_word_def be_bytes32_def
  apply (simp only: foldl.simps list.inject simp_thms)
  apply (intro conjI; rule bit_word_eqI)
     apply (auto simp add: bit_simps dest: bit_imp_le_length)
  done

lemma be_word_be_bytes32: "be_word (be_bytes32 x) = x"
proof (rule bit_word_eqI)
  fix n
  assume "n < LENGTH(32)"
  then consider "n < 8" | "8 \<le> n" "n < 16" | "16 \<le> n" "n < 24" | "24 \<le> n" "n < 32"
    by fastforce
  then show "bit (be_word (be_bytes32 x) :: u32) n \<longleftrightarrow> bit x n"
    unfolding be_word_def be_bytes32_def foldl.simps
    by cases (auto simp add: bit_simps dest: bit_imp_le_length)
qed

lemma byte_masks: "(0xff :: u32) = mask 8" "(0xff00 :: u32) = push_bit 8 (mask 8)"
  by (simp_all add: mask_eq_exp_minus_1 push_bit_eq_mult)

lemma be_bytes32_bswap32: "be_bytes32 (bswap32 x) = rev (be_bytes32 x)"
  unfolding be_bytes32_def bswap32_def byte_masks
  apply (simp only: rev.simps append.simps list.inject simp_thms)
  apply (intro conjI; rule bit_word_eqI)
     apply (auto simp add: bit_simps dest: bit_imp_le_length)
  done


lemma bswap32_be_word: "bswap32 (be_word [d, c, b, a]) = be_word [a, b, c, d]"
proof -
  have "be_bytes32 (bswap32 (be_word [d, c, b, a])) = be_bytes32 (be_word [a, b, c, d])"
    by (simp add: be_bytes32_bswap32 be_bytes32_be_word)
  then have "be_word (be_bytes32 (bswap32 (be_word [d, c, b, a])))
               = (be_word (be_bytes32 (be_word [a, b, c, d])) :: u32)"
    by simp
  then show ?thesis by (simp only: be_word_be_bytes32)
qed

lemma length_4_D:
  assumes "length bs = 4"
  shows "\<exists>a b c d. bs = [a, b, c, d]"
proof -
  have "length bs = Suc (Suc (Suc (Suc 0)))" using assms by simp
  then show ?thesis by (auto simp add: length_Suc_conv)
qed

lemma ntohl_load_u32:
  assumes "length bs = 4"
  shows "ntohl e (load_u32 e bs) = be_word bs"
proof -
  obtain a b c d where bs: "bs = [a, b, c, d]"
    using length_4_D [OF assms] by blast
  show ?thesis
    by (cases e) (simp_all add: ntohl_def load_u32_def bs bswap32_be_word)
qed

lemma store_u32_htonl: "store_u32 e (htonl e x) = be_bytes32 x"
  by (cases e) (simp_all add: store_u32_def htonl_def be_bytes32_bswap32)

lemma store_u32_zero: "store_u32 e 0 = [0, 0, 0, 0]"
  by (cases e) (simp_all add: store_u32_def be_bytes32_def)

lemma length_store_u32: "length (store_u32 e x) = 4"
  by (cases e) (simp_all add: store_u32_def be_bytes32_def)

lemma length_store_u16: "length (store_u16 e x) = 2"
  by (cases e) (simp_all add: store_u16_def be_bytes16_def)

lemma length_concat_version_bytes: "length (concat (map version_bytes vs)) = 2 * length vs"
  by (induction vs) (simp_all add: version_bytes_def)

lemma length_tail_bytes: "wf_TAIL t \<Longrightarrow> length (tail_bytes e t) = 32"
  by (simp add: wf_TAIL_def tail_bytes_def version_bytes_def length_concat_version_bytes
      length_store_u16 MAX_STRING_def MAX_VER_def)

subsection \<open>CRC-32\<close>

text \<open>The model gives the value that the CRC catalogues list for the ASCII digits 1 to 9.\<close>

lemma crc32_check_value:
  "crc32 0 [0x31, 0x32, 0x33, 0x34, 0x35, 0x36, 0x37, 0x38, 0x39] = 0xcbf43926"
  by (simp add: crc32_def crc_byte_def crc_bit_def)

subsection \<open>The key and the offset as numbers\<close>

lemma mod32_mod8:
  "((A + B mod 4294967296) mod 4294967296) mod 256 = (A + B) mod (256::int)"
proof -
  have d: "(256::int) dvd 4294967296" by simp
  have "((A + B mod 4294967296) mod 4294967296) mod 256 = (A + B mod 4294967296) mod 256"
    by (rule mod_mod_cancel [OF d])
  also have "\<dots> = (A + (B mod 4294967296) mod 256) mod 256"
    by (simp only: mod_add_right_eq)
  also have "\<dots> = (A + B mod 256) mod 256"
    by (simp only: mod_mod_cancel [OF d])
  also have "\<dots> = (A + B) mod 256"
    by (simp only: mod_add_right_eq)
  finally show ?thesis .
qed

lemma uint_u8_bounds: "0 \<le> uint b \<and> uint b < 256" for b :: u8
  using unsigned_less [of b, where ?'a = int] by simp

lemma neg_mod_256:
  assumes "0 \<le> x" and "x < (256::int)"
  shows "(- x - 1) mod 256 = 255 - x"
proof -
  have "((- x - 1) + 256) mod 256 = (- x - 1) mod 256" by (rule mod_add_self2)
  moreover have "(- x - 1) + 256 = 255 - x" by simp
  moreover have "(255 - x) mod 256 = 255 - x" using assms by simp
  ultimately show ?thesis by simp
qed

lemma uint_calc_key: "uint (calc_key a b) = (uint a + (- uint b - 1)) mod 256"
proof -
  have a: "uint (ucast a :: 32 word) = uint a" and b: "uint (ucast b :: 32 word) = uint b"
    by (simp_all add: uint_up_ucast is_up)
  have n: "uint (NOT (ucast b :: 32 word)) = (- uint b - 1) mod 4294967296"
    by (simp add: unsigned_not_eq take_bit_eq_mod not_int_def b)
  have s: "uint ((ucast a :: 32 word) + NOT (ucast b))
             = (uint a + (- uint b - 1) mod 4294967296) mod 4294967296"
    by (simp add: uint_word_ariths a n)
  have "uint (calc_key a b) = uint ((ucast a :: 32 word) + NOT (ucast b)) mod 256"
    unfolding calc_key_def by (simp add: unsigned_ucast_eq take_bit_eq_mod)
  then show ?thesis by (simp only: s mod32_mod8)
qed

lemma uint_NOT_u8: "uint (NOT b) = 255 - uint b" for b :: u8
  using uint_u8_bounds [of b]
  by (simp add: unsigned_not_eq take_bit_eq_mod not_int_def neg_mod_256)

lemma calc_key_eq: "calc_key a b = a + NOT b"
proof -
  have "uint (a + NOT b) = (uint a + (255 - uint b)) mod 256"
    by (simp add: uint_word_ariths uint_NOT_u8)
  also have "\<dots> = (uint a + (- uint b - 1) mod 256) mod 256"
    using uint_u8_bounds [of b] by (simp add: neg_mod_256)
  also have "\<dots> = (uint a + (- uint b - 1)) mod 256"
    by (simp only: mod_add_right_eq)
  finally show ?thesis by (simp add: word_uint_eq_iff uint_calc_key)
qed

lemma unat_calc_key: "unat (calc_key a b) = (unat a + (255 - unat b)) mod 256"
proof -
  have "int (unat (NOT b)) = 255 - int (unat b)"
    using uint_NOT_u8 [of b] by simp
  then have "unat (NOT b) = 255 - unat b" by linarith
  then show ?thesis by (simp add: calc_key_eq unat_word_ariths)
qed

lemma unat_calc_checksum_b_offset:
  "unat (calc_checksum_b_offset e x) = (unat (ntohl e x) + 64) div 2"
proof -
  have lt: "unat (ntohl e x) < 2 ^ 32"
    using unsigned_less [of "ntohl e x", where ?'a = nat] by simp
  have "unat ((ucast (ntohl e x) :: u64) + 64) = unat (ntohl e x) + 64"
    using lt by (simp add: unat_word_ariths unsigned_ucast_eq take_bit_eq_mod)
  then have "unat (drop_bit 1 ((ucast (ntohl e x) :: u64) + 64)) = (unat (ntohl e x) + 64) div 2"
    by (simp add: unat_drop_bit_eq drop_bit_eq_div unat_div)
  then show ?thesis
    unfolding calc_checksum_b_offset_def sizeof_image_header_def
    using lt by (simp add: unsigned_ucast_eq take_bit_eq_mod)
qed

lemma unat_checksum_b_offset_of:
  assumes "16 \<le> length img"
  shows "unat (checksum_b_offset_of e img)
           = (unat (be_word (take 4 (drop 12 img)) :: u32) + 64) div 2"
proof -
  have "length (take 4 (drop 12 img)) = 4" using assms by simp
  then show ?thesis
    by (simp add: checksum_b_offset_of_def off_ih_size_def unat_calc_checksum_b_offset
        ntohl_load_u32)
qed

subsection \<open>The outcomes of fix\_checksum\<close>

lemma fix_checksum_success:
  fixes e img image_len tail
  defines "off \<equiv> checksum_b_offset_of e img"
  defines "tail2 \<equiv> tail\<lparr>key := calc_key (img ! 0) (img ! unat off),
                          productid := take 11 (drop 32 img) @ drop 11 (productid tail)\<rparr>"
  defines "img1 \<equiv> take 32 img @ tail_bytes e tail2 @ drop 64 img"
  defines "img2 \<equiv> take 4 img1 @ store_u32 e 0 @ drop 8 img1"
  assumes wf: "wf_TAIL tail" and len: "64 \<le> length img"
    and inb: "unat off < length img" and chk: "\<not> image_len < uint off"
  shows "fix_checksum e img image_len tail =
           Inr (take 4 img2 @ store_u32 e (htonl e (crc32 0 (take 64 img2))) @ drop 8 img2, tail2)"
proof -
  have wf2: "wf_TAIL tail2" using wf len by (simp add: tail2_def wf_TAIL_def MAX_STRING_def)
  have lt: "length (tail_bytes e tail2) = 32" by (rule length_tail_bytes [OF wf2])
  have l1: "length img1 = length img" using len by (simp add: img1_def lt)
  have l2: "length img2 = length img" using len l1 by (simp add: img2_def length_store_u32)
  have r1: "rd_bytes img off_ih_size 4 = Inr (take 4 (drop off_ih_size img))"
    using len by (simp add: rd_bytes_def off_ih_size_def)
  have off_eq: "calc_checksum_b_offset e (load_u32 e (take 4 (drop off_ih_size img))) = off"
    by (simp add: off_def checksum_b_offset_of_def)
  have r2: "rd img 0 = Inr (img ! 0)" using len by (auto simp add: rd_def)
  have r3: "rd img (unat off) = Inr (img ! unat off)" using inb by (simp add: rd_def)
  have r4: "rd_bytes img off_u (MAX_STRING - 1) = Inr (take 11 (drop 32 img))"
    using len by (simp add: rd_bytes_def off_u_def MAX_STRING_def)
  have t2: "tail\<lparr>key := calc_key (img ! 0) (img ! unat off)\<rparr>
              \<lparr>productid := take 11 (drop 32 img) @ drop (MAX_STRING - 1)
                 (productid (tail\<lparr>key := calc_key (img ! 0) (img ! unat off)\<rparr>))\<rparr> = tail2"
    by (simp add: tail2_def MAX_STRING_def)
  have w1: "wr_bytes img off_u (tail_bytes e tail2) = Inr img1"
    using len by (simp add: wr_bytes_def off_u_def lt img1_def)
  have w2: "wr_bytes img1 off_ih_hcrc (store_u32 e 0) = Inr img2"
    using len l1 by (simp add: wr_bytes_def off_ih_hcrc_def img2_def length_store_u32)
  have r5: "rd_bytes img2 0 sizeof_image_header = Inr (take 64 img2)"
    using len l2 by (simp add: rd_bytes_def sizeof_image_header_def)
  have w3: "wr_bytes img2 off_ih_hcrc (store_u32 e x)
              = Inr (take 4 img2 @ store_u32 e x @ drop 8 img2)" for x
    using len l2 by (simp add: wr_bytes_def off_ih_hcrc_def length_store_u32)
  show ?thesis
    unfolding fix_checksum_def
    by (simp only: r1 bind_err_def sum.case Let_def off_eq r2 chk if_False r3 r4 t2 w1 w2 r5 w3)
qed

lemma fix_checksum_no_header:
  assumes "length img < 16"
  shows "fix_checksum e img image_len tail = Inl OutOfBounds"
  using assms unfolding fix_checksum_def
  by (simp add: rd_bytes_def off_ih_size_def bind_err_def)

lemma fix_checksum_too_small:
  assumes "16 \<le> length img" and "image_len < uint (checksum_b_offset_of e img)"
  shows "fix_checksum e img image_len tail = Inl (Fatal (''too small uImage size'' @ nl))"
proof -
  have r1: "rd_bytes img off_ih_size 4 = Inr (take 4 (drop off_ih_size img))"
    using assms(1) by (simp add: rd_bytes_def off_ih_size_def)
  have r2: "rd img 0 = Inr (img ! 0)" using assms(1) by (auto simp add: rd_def)
  show ?thesis
    unfolding fix_checksum_def
    using assms(2)
    by (simp add: r1 r2 bind_err_def Let_def checksum_b_offset_of_def)
qed

lemma fix_checksum_b_outside:
  assumes "16 \<le> length img" and "\<not> image_len < uint (checksum_b_offset_of e img)"
    and "length img \<le> unat (checksum_b_offset_of e img)"
  shows "fix_checksum e img image_len tail = Inl OutOfBounds"
proof -
  have r1: "rd_bytes img off_ih_size 4 = Inr (take 4 (drop off_ih_size img))"
    using assms(1) by (simp add: rd_bytes_def off_ih_size_def)
  have r2: "rd img 0 = Inr (img ! 0)" using assms(1) by (auto simp add: rd_def)
  have r3: "rd img (unat (checksum_b_offset_of e img)) = Inl OutOfBounds"
    using assms(3) by (simp add: rd_def)
  show ?thesis
    unfolding fix_checksum_def
    using assms(2) r3
    by (simp add: r1 r2 bind_err_def Let_def checksum_b_offset_of_def)
qed

lemma fix_checksum_short_header:
  assumes "wf_TAIL tail" and "16 \<le> length img" and "length img < 64"
    and "\<not> image_len < uint (checksum_b_offset_of e img)"
  shows "fix_checksum e img image_len tail = Inl OutOfBounds"
proof (cases "length img \<le> unat (checksum_b_offset_of e img)")
  case True
  then show ?thesis using assms by (simp add: fix_checksum_b_outside)
next
  case False
  have r1: "rd_bytes img off_ih_size 4 = Inr (take 4 (drop off_ih_size img))"
    using assms(2) by (simp add: rd_bytes_def off_ih_size_def)
  have r2: "rd img 0 = Inr (img ! 0)" using assms(2) by (auto simp add: rd_def)
  have r3: "rd img (unat (checksum_b_offset_of e img))
              = Inr (img ! unat (checksum_b_offset_of e img))"
    using False by (simp add: rd_def)
  have w: "wr_bytes img off_u (tail_bytes e t) = Inl OutOfBounds" if "wf_TAIL t" for t
    using assms(3) that by (simp add: wr_bytes_def off_u_def length_tail_bytes)
  have wf2: "wf_TAIL (tail\<lparr>key := k,
               productid := take 11 (drop 32 img) @ drop 11 (productid tail)\<rparr>)"
    if "43 \<le> length img" for k
    using assms(1) that by (simp add: wf_TAIL_def MAX_STRING_def)
  show ?thesis
    unfolding fix_checksum_def
    using assms(4) r3
    by (simp add: r1 r2 bind_err_def Let_def checksum_b_offset_of_def rd_bytes_def off_u_def
        MAX_STRING_def w [unfolded off_u_def] wf2)
qed

lemma fix_checksum_Inr_D:
  assumes "wf_TAIL tail" and "fix_checksum e img image_len tail = Inr r"
  shows "64 \<le> length img \<and> unat (checksum_b_offset_of e img) < length img
         \<and> \<not> image_len < uint (checksum_b_offset_of e img)"
proof -
  have a: "16 \<le> length img"
    using assms(2) fix_checksum_no_header [of img e image_len tail]
    by (cases "length img < 16") simp_all
  have b: "\<not> image_len < uint (checksum_b_offset_of e img)"
    using assms(2) a fix_checksum_too_small [of img image_len e tail] by auto
  have c: "unat (checksum_b_offset_of e img) < length img"
    using assms(2) a b fix_checksum_b_outside [of img image_len e tail]
    by (cases "length img \<le> unat (checksum_b_offset_of e img)") simp_all
  have d: "64 \<le> length img"
    using assms a b fix_checksum_short_header [of tail img image_len e]
    by (cases "length img < 64") simp_all
  show ?thesis using b c d by simp
qed

lemma bind_err_Fatal:
  "bind_err m f = Inl (Fatal msg) \<longleftrightarrow>
     m = Inl (Fatal msg) \<or> (\<exists>x. m = Inr x \<and> f x = Inl (Fatal msg))"
  by (cases m) (simp_all add: bind_err_def)

lemma rd_not_Fatal: "rd img i \<noteq> Inl (Fatal msg)"
  by (simp add: rd_def)

lemma rd_bytes_not_Fatal: "rd_bytes img i n \<noteq> Inl (Fatal msg)"
  by (simp add: rd_bytes_def)

lemma wr_bytes_not_Fatal: "wr_bytes img i bs \<noteq> Inl (Fatal msg)"
  by (simp add: wr_bytes_def)

lemma fix_checksum_Fatal_D:
  assumes "fix_checksum e img image_len tail = Inl (Fatal msg)"
  shows "msg = ''too small uImage size'' @ nl \<and> 16 \<le> length img
         \<and> image_len < uint (checksum_b_offset_of e img)"
proof -
  have a: "16 \<le> length img"
    using assms fix_checksum_no_header [of img e image_len tail]
    by (cases "length img < 16") simp_all
  have r1: "rd_bytes img off_ih_size 4 = Inr (take 4 (drop off_ih_size img))"
    using a by (simp add: rd_bytes_def off_ih_size_def)
  have b: "image_len < uint (checksum_b_offset_of e img)"
    using assms unfolding fix_checksum_def Let_def
    by (auto simp add: bind_err_Fatal rd_not_Fatal rd_bytes_not_Fatal wr_bytes_not_Fatal r1
        checksum_b_offset_of_def split: if_splits)
  show ?thesis using assms a b by (simp add: fix_checksum_too_small)
qed

subsection \<open>The buffer after a run that returns\<close>

lemma fix_checksum_Inr_form:
  assumes wf: "wf_TAIL tail" and ok: "fix_checksum e img image_len tail = Inr (img', tail')"
  shows "tail' = tail\<lparr>key := calc_key (img ! 0) (img ! unat (checksum_b_offset_of e img)),
                        productid := take 11 (drop 32 img) @ drop 11 (productid tail)\<rparr>"
    and "img' = take 4 img
                @ be_bytes32 (crc32 0 (take 4 img @ [0, 0, 0, 0] @ take 24 (drop 8 img)
                                        @ tail_bytes e tail'))
                @ take 24 (drop 8 img) @ tail_bytes e tail' @ drop 64 img"
proof -
  from fix_checksum_Inr_D [OF wf ok]
  have len: "64 \<le> length img" and inb: "unat (checksum_b_offset_of e img) < length img"
    and chk: "\<not> image_len < uint (checksum_b_offset_of e img)"
    by simp_all
  note eq = trans [OF fix_checksum_success [OF wf len inb chk, symmetric] ok,
      unfolded sum.inject prod.inject]
  show t: "tail' = tail\<lparr>key := calc_key (img ! 0) (img ! unat (checksum_b_offset_of e img)),
                        productid := take 11 (drop 32 img) @ drop 11 (productid tail)\<rparr>"
    by (rule conjunct2 [OF eq, symmetric])
  have wf': "wf_TAIL tail'" using wf len by (simp add: t wf_TAIL_def MAX_STRING_def)
  have lt: "length (tail_bytes e tail') = 32" by (rule length_tail_bytes [OF wf'])
  define img1 where "img1 = take 32 img @ tail_bytes e tail' @ drop 64 img"
  define img2 where "img2 = take 4 img1 @ store_u32 e 0 @ drop 8 img1"
  have a1: "take 4 img1 = take 4 img"
    using len by (simp add: img1_def)
  have b1: "drop 8 img1 = take 24 (drop 8 img) @ tail_bytes e tail' @ drop 64 img"
    using len by (simp add: img1_def drop_take)
  have a2: "take 4 img2 = take 4 img"
    using len by (simp add: img2_def a1)
  have b2: "drop 8 img2 = drop 8 img1"
    using len by (simp add: img2_def a1 length_store_u32)
  have c2: "take 64 img2 = take 4 img @ [0, 0, 0, 0] @ take 24 (drop 8 img) @ tail_bytes e tail'"
    using len by (simp add: img2_def a1 b1 lt store_u32_zero)
  have "img' = take 4 img2 @ store_u32 e (htonl e (crc32 0 (take 64 img2))) @ drop 8 img2"
    unfolding img2_def img1_def t by (rule conjunct1 [OF eq, symmetric])
  then show "img' = take 4 img
                @ be_bytes32 (crc32 0 (take 4 img @ [0, 0, 0, 0] @ take 24 (drop 8 img)
                                        @ tail_bytes e tail'))
                @ take 24 (drop 8 img) @ tail_bytes e tail' @ drop 64 img"
    by (simp only: a2 b2 c2 b1 store_u32_htonl)
qed


lemma fix_checksum_Inr_parts:
  assumes wf: "wf_TAIL tail" and ok: "fix_checksum e img image_len tail = Inr (img', tail')"
  shows "length img' = length img"
    and "take 4 img' = take 4 img"
    and "take 4 (drop 4 img') = be_bytes32 (crc32 0 (take 4 img @ [0, 0, 0, 0]
            @ take 24 (drop 8 img) @ tail_bytes e tail'))"
    and "take 24 (drop 8 img') = take 24 (drop 8 img)"
    and "take 32 (drop 32 img') = tail_bytes e tail'"
    and "drop 64 img' = drop 64 img"
    and "wf_TAIL tail'"
proof -
  from fix_checksum_Inr_D [OF wf ok] have len: "64 \<le> length img" by simp
  note t = fix_checksum_Inr_form(1) [OF wf ok]
  show wf': "wf_TAIL tail'" using wf len by (simp add: t wf_TAIL_def MAX_STRING_def)
  have lt: "length (tail_bytes e tail') = 32" by (rule length_tail_bytes [OF wf'])
  have lb: "length (be_bytes32 x) = 4" for x by (simp add: be_bytes32_def)
  note f = fix_checksum_Inr_form(2) [OF wf ok]
  show "length img' = length img" using len by (subst f) (simp add: lt lb)
  show "take 4 img' = take 4 img" using len by (subst f) simp
  show "take 4 (drop 4 img') = be_bytes32 (crc32 0 (take 4 img @ [0, 0, 0, 0]
            @ take 24 (drop 8 img) @ tail_bytes e tail'))"
    using len by (subst f) (simp add: lb)
  show "take 24 (drop 8 img') = take 24 (drop 8 img)" using len by (subst f) (simp add: lb)
  show "take 32 (drop 32 img') = tail_bytes e tail'" using len by (subst f) (simp add: lb lt)
  show "drop 64 img' = drop 64 img" using len by (subst f) (simp add: lb lt)
qed


lemma nth_slice:
  assumes "k \<le> i" and "i < k + n" and "i < length xs"
  shows "take n (drop k xs) ! (i - k) = xs ! i"
  using assms by simp

lemma nth_eq_from_slice:
  assumes "take n (drop k xs) = take n (drop k ys)"
    and "k \<le> i" and "i < k + n" and "i < length xs" and "i < length ys"
  shows "xs ! i = ys ! i"
  using nth_slice [of k i n xs] nth_slice [of k i n ys] assms by simp

lemma nth_eq_from_drop:
  assumes "drop k xs = drop k ys" and "k \<le> i" and "i < length xs" and "i < length ys"
  shows "xs ! i = ys ! i"
proof -
  have "xs ! i = drop k xs ! (i - k)" using assms(2,3) by simp
  also have "\<dots> = drop k ys ! (i - k)" by (simp only: assms(1))
  also have "\<dots> = ys ! i" using assms(2,4) by simp
  finally show ?thesis .
qed

lemma tail_bytes_nth_key: "wf_TAIL t \<Longrightarrow> tail_bytes e t ! 21 = key t"
  by (simp add: tail_bytes_def version_bytes_def wf_TAIL_def MAX_STRING_def nth_append
      length_store_u16)


subsection \<open>The example image\<close>

lemma fix_checksum_stepwise:
  assumes "wf_TAIL tail" and "64 \<le> length img"
    and "checksum_b_offset_of e img = off"
    and "unat off < length img" and "\<not> image_len < uint off"
    and "tail\<lparr>key := calc_key (img ! 0) (img ! unat off),
               productid := take 11 (drop 32 img) @ drop 11 (productid tail)\<rparr> = tail2"
    and "take 32 img @ tail_bytes e tail2 @ drop 64 img = img1"
    and "take 4 img1 @ store_u32 e 0 @ drop 8 img1 = img2"
    and "take 4 img2 @ store_u32 e (htonl e (crc32 0 (take 64 img2))) @ drop 8 img2 = img3"
  shows "fix_checksum e img image_len tail = Inr (img3, tail2)"
  using fix_checksum_success [of tail img e image_len] assms by simp

lemma length_img80: "length img80 = 80"
  by (simp add: img80_def)

lemma wf_tail80: "wf_TAIL tail80"
  by (simp add: wf_TAIL_def tail80_def MAX_STRING_def MAX_VER_def)

lemma offset_img80: "checksum_b_offset_of e img80 = 40"
proof -
  have "take 4 (drop 12 img80) = [0, 0, 0, 16]" by (simp add: img80_def)
  moreover have "be_word [0, 0, 0, 16] = (16 :: u32)" by (simp add: be_word_def)
  ultimately have "unat (checksum_b_offset_of e img80) = 40"
    by (simp add: unat_checksum_b_offset_of length_img80)
  then show ?thesis by (simp add: word_unat_eq_iff)
qed

lemma crc32_out80:
  "crc32 0 (take 64 (take 4 out80 @ [0, 0, 0, 0] @ drop 8 out80)) = 0x2d07c3db"
  by (simp add: out80_def crc32_def crc_byte_def crc_bit_def)

lemma fix_checksum_img80: "fix_checksum LittleEndian img80 80 tail80 = Inr (out80, tail80_out)"
proof (rule fix_checksum_stepwise)
  show "wf_TAIL tail80" by (rule wf_tail80)
  show "64 \<le> length img80" by (simp add: length_img80)
  show "checksum_b_offset_of LittleEndian img80 = 40" by (rule offset_img80)
  show "unat (40 :: u32) < length img80" by (simp add: length_img80)
  show "\<not> (80::int) < uint (40 :: u32)" by simp
  show "tail80\<lparr>key := calc_key (img80 ! 0) (img80 ! unat (40 :: u32)),
               productid := take 11 (drop 32 img80) @ drop 11 (productid tail80)\<rparr> = tail80_out"
    by (simp add: img80_def tail80_def tail80_out_def calc_key_def)
  show "take 32 img80 @ tail_bytes LittleEndian tail80_out @ drop 64 img80
          = take 4 out80 @ take 4 (drop 4 img80) @ drop 8 out80"
    by (simp add: img80_def out80_def tail80_out_def tail80_def tail_bytes_def version_bytes_def
        store_u16_def be_bytes16_def)
  show "take 4 (take 4 out80 @ take 4 (drop 4 img80) @ drop 8 out80) @ store_u32 LittleEndian 0
          @ drop 8 (take 4 out80 @ take 4 (drop 4 img80) @ drop 8 out80)
          = take 4 out80 @ [0, 0, 0, 0] @ drop 8 out80"
    by (simp add: img80_def out80_def store_u32_zero)
  show "take 4 (take 4 out80 @ [0, 0, 0, 0] @ drop 8 out80)
          @ store_u32 LittleEndian (htonl LittleEndian
              (crc32 0 (take 64 (take 4 out80 @ [0, 0, 0, 0] @ drop 8 out80))))
          @ drop 8 (take 4 out80 @ [0, 0, 0, 0] @ drop 8 out80) = out80"
    unfolding crc32_out80 store_u32_htonl
    by (simp add: out80_def be_bytes32_def)
qed

subsection \<open>More on the buffer after a run that returns\<close>

lemma fix_checksum_Inr_bytes:
  assumes "wf_TAIL tail" and "fix_checksum e img image_len tail = Inr (img', tail')"
  shows "img' ! 32 = major (kernel tail)" and "img' ! 36 = img ! 32"
    and "checksum_b_offset_of e img' = checksum_b_offset_of e img"
proof -
  note d = fix_checksum_Inr_D [OF assms]
  note p = fix_checksum_Inr_parts [OF assms]
  note t = fix_checksum_Inr_form(1) [OF assms]
  have len: "64 \<le> length img" using d by simp
  have l: "length (productid tail') = 12"
    using p(7) by (simp add: wf_TAIL_def MAX_STRING_def)
  have "take 32 (drop 32 img') ! (32 - 32) = img' ! 32"
    using len p(1) by (intro nth_slice) simp_all
  then show "img' ! 32 = major (kernel tail)"
    by (simp add: p(5) tail_bytes_def version_bytes_def t)
  have "take 32 (drop 32 img') ! (36 - 32) = img' ! 36"
    using len p(1) by (intro nth_slice) simp_all
  then have "img' ! 36 = productid tail' ! 0"
    using l by (simp add: p(5) tail_bytes_def version_bytes_def nth_append)
  also have "\<dots> = img ! 32"
    using len by (simp add: t nth_append)
  finally show "img' ! 36 = img ! 32" .
  have "take 4 (drop 4 (take 24 (drop 8 img'))) = take 4 (drop 4 (take 24 (drop 8 img)))"
    by (simp only: p(4))
  then have "take 4 (drop 12 img') = take 4 (drop 12 img)"
    by (simp add: drop_take)
  then show "checksum_b_offset_of e img' = checksum_b_offset_of e img"
    by (simp add: checksum_b_offset_of_def off_ih_size_def)
qed

subsection \<open>The version string\<close>

lemma wf_assign_field: "wf_TAIL t \<Longrightarrow> wf_TAIL (assign_field i v t)"
  by (simp add: wf_TAIL_def assign_field_def)

lemma wf_assign_fields: "wf_TAIL t \<Longrightarrow> wf_TAIL (assign_fields i vs t)"
  by (induction vs arbitrary: i t) (simp_all add: wf_assign_field)

lemma wf_zero_tail: "wf_TAIL zero_tail"
  by (simp add: wf_TAIL_def zero_tail_def)

lemma wf_sscanf_version: "wf_TAIL (snd (sscanf_version v zero_tail))"
  by (simp add: sscanf_version_def Let_def wf_assign_fields wf_zero_tail)

lemma six: "(6::nat) = Suc (Suc (Suc (Suc (Suc (Suc 0)))))"
  by simp

lemma scan_fields_example:
  "scan_fields 6 ''3.0.0.4.382.52482'' = [3, 0, 0, 4, 382, 52482]"
  unfolding six
  by (simp add: scan_u_def scan_dot_def isspace_def isdigit_def dec_val_def strtoul_val_def Let_def)

lemma zero_tail_explicit:
  "zero_tail =
     \<lparr>kernel = \<lparr>major = 0, minor = 0\<rparr>, fs = \<lparr>major = 0, minor = 0\<rparr>,
      productid = [0, 0, 0, 0, 0, 0, 0, 0, 0, 0, 0, 0], sn = 0, en = 0, pkey = 0, key = 0,
      hw = [\<lparr>major = 0, minor = 0\<rparr>, \<lparr>major = 0, minor = 0\<rparr>, \<lparr>major = 0, minor = 0\<rparr>,
            \<lparr>major = 0, minor = 0\<rparr>, \<lparr>major = 0, minor = 0\<rparr>]\<rparr>"
  by (simp add: zero_tail_def zero_version_def MAX_STRING_def MAX_VER_def numeral_eq_Suc)

lemma sscanf_version_example: "sscanf_version ''3.0.0.4.382.52482'' zero_tail = (6, tail80)"
  by (simp add: sscanf_version_def scan_fields_example assign_field_def zero_tail_explicit
      tail80_def)

lemma scan_fields_short: "scan_fields 6 ''3.0.0'' = [3, 0, 0]"
  unfolding six
  by (simp add: scan_u_def scan_dot_def isspace_def isdigit_def dec_val_def strtoul_val_def Let_def)

lemma sscanf_version_short:
  "sscanf_version ''3.0.0'' zero_tail =
     (3, zero_tail\<lparr>kernel := \<lparr>major = 3, minor = 0\<rparr>, fs := \<lparr>major = 0, minor = 0\<rparr>\<rparr>)"
  by (simp add: sscanf_version_def scan_fields_short assign_field_def zero_tail_explicit)




subsection \<open>Runs of main\<close>

lemma opts_cmdline:
  "foldl opt_step init_locals (cmdline v) =
     \<lparr>m_infname = Some ''in'', m_outfname = Some ''out'', m_version = Some v,
      m_tail = snd (sscanf_version v zero_tail),
      m_stderr = (if 6 \<noteq> fst (sscanf_version v zero_tail) then [version_warning v] else [])\<rparr>"
  by (cases "sscanf_version v zero_tail") (simp add: cmdline_def opt_step_def init_locals_def)

lemma main_cmdline:
  assumes "open_input env ''in'' = Some file" and "open_output env ''out''" and "fstat_ok env"
    and "malloc_ok env (length file)" and "read_ok env"
    and "write_ret env (length file) = int (length file)"
  shows "main env prog (cmdline v) =
     (let w = (if 6 \<noteq> fst (sscanf_version v zero_tail) then [version_warning v] else []) in
      case fix_checksum (byte_order env) file (int (length file))
             (snd (sscanf_version v zero_tail)) of
        Inl (Fatal msg) \<Rightarrow> \<lparr>status = Exit 1, err = w @ [msg], written = None\<rparr>
      | Inl OutOfBounds \<Rightarrow> \<lparr>status = Undefined, err = w, written = None\<rparr>
      | Inr (filebuf, t) \<Rightarrow> \<lparr>status = Exit 0, err = w, written = Some filebuf\<rparr>)"
  unfolding main_def opts_cmdline
  using assms
  by (simp add: die_def Let_def split: sum.splits error.splits prod.splits)

lemma main_file_env:
  "main (file_env e file) prog (cmdline v) =
     (let w = (if 6 \<noteq> fst (sscanf_version v zero_tail) then [version_warning v] else []) in
      case fix_checksum e file (int (length file)) (snd (sscanf_version v zero_tail)) of
        Inl (Fatal msg) \<Rightarrow> \<lparr>status = Exit 1, err = w @ [msg], written = None\<rparr>
      | Inl OutOfBounds \<Rightarrow> \<lparr>status = Undefined, err = w, written = None\<rparr>
      | Inr (filebuf, t) \<Rightarrow> \<lparr>status = Exit 0, err = w, written = Some filebuf\<rparr>)"
  using main_cmdline [of "file_env e file" "file" prog v] by (simp add: file_env_def)

subsection \<open>The other example files\<close>

lemma length_img1024: "16 \<le> n \<Longrightarrow> length (img1024 n) = n"
  by (simp add: img1024_def hdr1024_def)

lemma size_field_img1024: "take 4 (drop 12 (img1024 n)) = [0, 0, 4, 0]"
  by (simp add: img1024_def hdr1024_def)

lemma be_word_1024: "be_word [0, 0, 4, 0] = (1024 :: u32)"
  by (simp add: be_word_def)

lemma offset_img1024: "16 \<le> n \<Longrightarrow> checksum_b_offset_of e (img1024 n) = 544"
proof -
  assume n: "16 \<le> n"
  have "unat (checksum_b_offset_of e (img1024 n)) = 544"
    using n by (simp add: unat_checksum_b_offset_of length_img1024 size_field_img1024 be_word_1024)
  then show ?thesis by (simp add: word_unat_eq_iff)
qed

lemma length_img64: "length img64 = 64"
  by (simp add: img64_def)

lemma offset_img64: "unat (checksum_b_offset_of e img64) = 64"
proof -
  have "take 4 (drop 12 img64) = [0, 0, 0, 64]" by (simp add: img64_def)
  moreover have "be_word [0, 0, 0, 64] = (64 :: u32)" by (simp add: be_word_def)
  ultimately show ?thesis
    by (simp add: unat_checksum_b_offset_of length_img64)
qed

subsection \<open>Runs that return, and what they read\<close>

lemma fix_checksum_Inr_key:
  assumes "wf_TAIL tail" and "fix_checksum e img image_len tail = Inr (img', tail')"
  shows "key tail' = calc_key (img ! 0) (img ! unat (checksum_b_offset_of e img))"
    and "img' ! 53 = key tail'"
proof -
  note d = fix_checksum_Inr_D [OF assms]
  note p = fix_checksum_Inr_parts [OF assms]
  show "key tail' = calc_key (img ! 0) (img ! unat (checksum_b_offset_of e img))"
    by (simp add: fix_checksum_Inr_form(1) [OF assms])
  have "take 32 (drop 32 img') ! (53 - 32) = img' ! 53"
    using d p(1) by (intro nth_slice) simp_all
  then show "img' ! 53 = key tail'"
    by (simp add: p(5) tail_bytes_nth_key [OF p(7)])
qed

lemma fix_checksum_returns:
  assumes "wf_TAIL tail" and "64 \<le> length img"
    and "unat (checksum_b_offset_of e img) < length img"
    and "\<not> image_len < uint (checksum_b_offset_of e img)"
  shows "\<exists>img' tail'. fix_checksum e img image_len tail = Inr (img', tail')"
  using fix_checksum_success [OF assms] by simp

lemma offset_take48: "checksum_b_offset_of e (take 48 img80) = 40"
proof -
  have "take 4 (drop 12 (take 48 img80)) = take 4 (drop 12 img80)"
    by (simp add: drop_take)
  then show ?thesis
    using offset_img80 [of e] by (simp add: checksum_b_offset_of_def off_ih_size_def)
qed






subsection \<open>More version strings\<close>





section \<open>The claims\<close>

text \<open>
  In the theorems about a run of \<open>fix_checksum\<close> that returns, \<open>img\<close> and \<open>tail\<close> are the
  buffer and the \<^verbatim>\<open>TAIL\<close> on entry, \<open>img'\<close> and \<open>tail'\<close> what the function leaves. The key is
  byte 21 of the tail, byte 53 of the buffer; \<^verbatim>\<open>productid\<close> is bytes 4 to 15 of the tail, bytes
  36 to 47 of the buffer.
\<close>

text \<open>
  \<^bold>\<open>C1\<close> as the specification words it asks only that the buffer passes the size check.
  The header-only file \<open>img64\<close> passes it (\<open>64 < 64\<close> is false), and so do the first 48 bytes
  of the example image (\<open>48 < 40\<close> is false). Neither run leaves a key: the first reads
  \<open>checksum_b\<close> at index 64 of a buffer of 64 bytes, the second lays the tail over bytes 32
  to 63 of a buffer of 48.
\<close>

theorem key_needs_accesses_inside_counterexample:
  "\<not> (64 :: int) < uint (checksum_b_offset_of LittleEndian img64)
   \<and> fix_checksum LittleEndian img64 64 zero_tail = Inl OutOfBounds
   \<and> \<not> (48 :: int) < uint (checksum_b_offset_of LittleEndian (take 48 img80))
   \<and> fix_checksum LittleEndian (take 48 img80) 48 zero_tail = Inl OutOfBounds"
proof -
  have c: "\<not> (64 :: int) < uint (checksum_b_offset_of LittleEndian img64)"
    using offset_img64 [of LittleEndian] by (simp add: uint_nat)
  have f: "fix_checksum LittleEndian img64 64 zero_tail = Inl OutOfBounds"
    by (rule fix_checksum_b_outside) (simp_all add: length_img64 offset_img64 c)
  have c': "\<not> (48 :: int) < uint (checksum_b_offset_of LittleEndian (take 48 img80))"
    by (simp add: offset_take48)
  have f': "fix_checksum LittleEndian (take 48 img80) 48 zero_tail = Inl OutOfBounds"
    by (rule fix_checksum_short_header) (simp_all add: wf_zero_tail length_img80 c')
  show ?thesis using c f c' f' by simp
qed

text \<open>
  \<^bold>\<open>C1\<close>, for a buffer that holds what the function touches. Let the buffer have at least
  64 bytes, let \<open>checksum_b_offset\<close> be smaller than its length, and let the size check pass.
  Then \<open>fix_checksum\<close> returns, and the \<^verbatim>\<open>key\<close> member of the tail it leaves is
  \<open>checksum_a + NOT checksum_b\<close> in 8-bit arithmetic, that is
  \<open>(checksum_a + (255 - checksum_b)) mod 256\<close>, where \<open>checksum_a\<close> is byte 0 and \<open>checksum_b\<close>
  the byte at \<open>checksum_b_offset\<close> of the buffer on entry, before the tail is laid over the
  name; the same value is the key byte of the buffer on exit.
\<close>

theorem key_is_checksum_a_plus_not_checksum_b:
  assumes "wf_TAIL tail" and "64 \<le> length img"
    and "unat (checksum_b_offset_of e img) < length img"
    and "\<not> image_len < uint (checksum_b_offset_of e img)"
  shows "\<exists>img' tail'. fix_checksum e img image_len tail = Inr (img', tail')
    \<and> key tail' = img ! 0 + NOT (img ! unat (checksum_b_offset_of e img))
    \<and> unat (key tail')
        = (unat (img ! 0) + (255 - unat (img ! unat (checksum_b_offset_of e img)))) mod 256
    \<and> img' ! 53 = key tail'"
proof -
  from fix_checksum_returns [OF assms] obtain img' tail'
    where ok: "fix_checksum e img image_len tail = Inr (img', tail')" by blast
  note k = fix_checksum_Inr_key [OF assms(1) ok]
  have "key tail' = img ! 0 + NOT (img ! unat (checksum_b_offset_of e img))"
    by (simp add: k(1) calc_key_eq)
  moreover have "unat (key tail')
        = (unat (img ! 0) + (255 - unat (img ! unat (checksum_b_offset_of e img)))) mod 256"
    by (simp add: k(1) unat_calc_key)
  ultimately show ?thesis using ok k(2) by blast
qed

theorem key_witness:
  "wf_TAIL tail80 \<and> 64 \<le> length img80
   \<and> unat (checksum_b_offset_of LittleEndian img80) < length img80
   \<and> \<not> 80 < uint (checksum_b_offset_of LittleEndian img80)
   \<and> fix_checksum LittleEndian img80 80 tail80 = Inr (out80, tail80_out)
   \<and> img80 ! 0 = 0x27 \<and> img80 ! 40 = 0x20 \<and> key tail80_out = 0x27 + NOT 0x20
   \<and> unat (key tail80_out) = (39 + (255 - 32)) mod 256 \<and> out80 ! 53 = key tail80_out"
proof -
  have a: "img80 ! 0 = 0x27" "img80 ! 40 = 0x20"
    by (simp_all add: img80_def)
  have h: "64 \<le> length img80" "unat (checksum_b_offset_of LittleEndian img80) < length img80"
    "\<not> 80 < uint (checksum_b_offset_of LittleEndian img80)"
    by (simp_all add: length_img80 offset_img80)
  show ?thesis
    using key_is_checksum_a_plus_not_checksum_b [OF wf_tail80 h, unfolded offset_img80]
    by (simp add: wf_tail80 fix_checksum_img80 a h)
qed



text \<open>
  \<^bold>\<open>C3\<close> as the specification words it names the message \<^verbatim>\<open>too small image size\<close>. The
  program prints another text: for a file of 500 bytes whose \<^verbatim>\<open>ih_size\<close> is 1024 the run
  ends with status 1 and nothing written, and \<^verbatim>\<open>stderr\<close> holds \<^verbatim>\<open>too small uImage size\<close> and a
  line feed.
\<close>

theorem too_small_message_counterexample:
  "main (file_env LittleEndian (img1024 500)) ''fix'' (cmdline ''3.0.0.4.382.52482'')
     = \<lparr>status = Exit 1, err = [''too small uImage size'' @ nl], written = None\<rparr>
   \<and> ''too small uImage size'' @ nl \<noteq> ''too small image size'' @ nl
   \<and> ''too small uImage size'' @ nl \<noteq> ''too small image size''"
proof -
  have "fix_checksum LittleEndian (img1024 500) 500 tail80
          = Inl (Fatal (''too small uImage size'' @ nl))"
    by (rule fix_checksum_too_small) (simp_all add: length_img1024 offset_img1024)
  then show ?thesis
    by (simp add: main_file_env sscanf_version_example length_img1024 nl_def)
qed

text \<open>
  \<^bold>\<open>C3\<close>, with the message of the program. Let the buffer hold the \<^verbatim>\<open>ih_size\<close> member (at
  least 16 bytes) and be shorter than \<open>checksum_b_offset\<close>. Then a run of \<open>main\<close> that reaches
  \<open>fix_checksum\<close> (the three options given, the files opened, the buffer allocated and read)
  ends with status 1, its last message is \<^verbatim>\<open>too small uImage size\<close> with a line feed after
  whatever the option loop printed, and \<^verbatim>\<open>write\<close> is never called.
\<close>

theorem too_small_image_is_fatal:
  assumes "foldl opt_step init_locals opts = l"
    and "m_infname l = Some infname" and "m_outfname l = Some outfname"
    and "m_version l = Some version"
    and "open_input env infname = Some file" and "open_output env outfname"
    and "fstat_ok env" and "malloc_ok env (length file)" and "read_ok env"
    and "16 \<le> length file"
    and "int (length file) < uint (checksum_b_offset_of (byte_order env) file)"
  shows "main env prog opts =
           \<lparr>status = Exit 1, err = m_stderr l @ [''too small uImage size'' @ nl], written = None\<rparr>"
  unfolding main_def
  using assms
  by (simp add: fix_checksum_too_small die_def)

theorem too_small_image_witness:
  "16 \<le> length (img1024 500)
   \<and> int (length (img1024 500)) < uint (checksum_b_offset_of LittleEndian (img1024 500))
   \<and> main (file_env LittleEndian (img1024 500)) ''fix'' (cmdline ''3.0.0'')
       = \<lparr>status = Exit 1,
          err = [version_warning ''3.0.0'', ''too small uImage size'' @ nl], written = None\<rparr>"
proof -
  have l: "foldl opt_step init_locals (cmdline ''3.0.0'') =
     \<lparr>m_infname = Some ''in'', m_outfname = Some ''out'', m_version = Some ''3.0.0'',
      m_tail = zero_tail\<lparr>kernel := \<lparr>major = 3, minor = 0\<rparr>, fs := \<lparr>major = 0, minor = 0\<rparr>\<rparr>,
      m_stderr = [version_warning ''3.0.0'']\<rparr>"
    by (simp add: opts_cmdline sscanf_version_short)
  show ?thesis
    using too_small_image_is_fatal [OF l, of "''in''" "''out''" "''3.0.0''"
        "file_env LittleEndian (img1024 500)" "img1024 500" "''fix''"]
    by (simp add: file_env_def length_img1024 offset_img1024)
qed

text \<open>
  \<^bold>\<open>C4\<close> as the specification words it says that a buffer of 1000 bytes whose \<^verbatim>\<open>ih_size\<close> is
  1024 fails the size check. The offset is 544 and 1000 is not smaller: the run ends with
  status 0 and writes its output.
\<close>

theorem size_check_passes_counterexample:
  "take 4 (drop 12 (img1024 1000)) = [0, 0, 4, 0] \<and> length (img1024 1000) = 1000
   \<and> status (main (file_env LittleEndian (img1024 1000)) ''fix'' (cmdline ''3.0.0.4.382.52482''))
       = Exit 0
   \<and> written (main (file_env LittleEndian (img1024 1000)) ''fix'' (cmdline ''3.0.0.4.382.52482''))
       \<noteq> None"
proof -
  have "\<not> int (length (img1024 1000)) < uint (checksum_b_offset_of LittleEndian (img1024 1000))"
    by (simp add: length_img1024 offset_img1024)
  from fix_checksum_success [OF wf_tail80 _ _ this]
  show ?thesis
    by (simp add: main_file_env sscanf_version_example length_img1024 offset_img1024
        size_field_img1024)
qed

text \<open>
  \<^bold>\<open>C4\<close>, with the outcome of the program. For a buffer that holds the \<^verbatim>\<open>ih_size\<close> member,
  \<open>checksum_b_offset\<close> is the big-endian value of bytes 12 to 15 plus 64, halved by integer
  division. When that value is 1024 the offset is 544: every buffer longer than 544 bytes,
  one of 2000 bytes and one of 1000 bytes alike, passes the size check and the run writes
  its output and ends with status 0; a buffer shorter than 544 bytes ends the run with
  status 1 before anything is written.
\<close>

theorem checksum_b_offset_is_half_of_size_plus_header:
  assumes "16 \<le> length img"
  shows "unat (checksum_b_offset_of e img)
           = (unat (be_word (take 4 (drop 12 img)) :: u32) + 64) div 2
    \<and> (be_word (take 4 (drop 12 img)) = (1024 :: u32) \<longrightarrow>
          unat (checksum_b_offset_of e img) = 544
        \<and> (544 < length img \<longrightarrow>
              status (main (file_env e img) prog (cmdline v)) = Exit 0
            \<and> written (main (file_env e img) prog (cmdline v)) \<noteq> None)
        \<and> (length img < 544 \<longrightarrow>
              status (main (file_env e img) prog (cmdline v)) = Exit 1
            \<and> written (main (file_env e img) prog (cmdline v)) = None))"
proof -
  note u = unat_checksum_b_offset_of [OF assms, of e]
  have "status (main (file_env e img) prog (cmdline v)) = Exit 0
        \<and> written (main (file_env e img) prog (cmdline v)) \<noteq> None"
    if "unat (checksum_b_offset_of e img) = 544" and "544 < length img"
  proof -
    have "\<not> int (length img) < uint (checksum_b_offset_of e img)"
      using that by (simp add: uint_nat)
    from fix_checksum_success [OF wf_sscanf_version _ _ this] that
    show ?thesis by (simp add: main_file_env Let_def)
  qed
  moreover have "status (main (file_env e img) prog (cmdline v)) = Exit 1
        \<and> written (main (file_env e img) prog (cmdline v)) = None"
    if "unat (checksum_b_offset_of e img) = 544" and "length img < 544"
  proof -
    have "int (length img) < uint (checksum_b_offset_of e img)"
      using that by (simp add: uint_nat)
    from fix_checksum_too_small [OF assms this]
    show ?thesis by (simp add: main_file_env Let_def)
  qed
  ultimately show ?thesis using u by simp
qed

theorem checksum_b_offset_witness:
  "16 \<le> length (img1024 2000) \<and> 16 \<le> length (img1024 1000) \<and> 16 \<le> length (img1024 500)
   \<and> be_word (take 4 (drop 12 (img1024 2000))) = (1024 :: u32)
   \<and> unat (checksum_b_offset_of LittleEndian (img1024 2000)) = 544
   \<and> 544 < length (img1024 2000) \<and> 544 < length (img1024 1000) \<and> length (img1024 500) < 544
   \<and> status (main (file_env LittleEndian (img1024 2000)) ''fix'' (cmdline ''3.0.0'')) = Exit 0
   \<and> status (main (file_env LittleEndian (img1024 1000)) ''fix'' (cmdline ''3.0.0'')) = Exit 0
   \<and> written (main (file_env LittleEndian (img1024 1000)) ''fix'' (cmdline ''3.0.0'')) \<noteq> None
   \<and> status (main (file_env LittleEndian (img1024 500)) ''fix'' (cmdline ''3.0.0'')) = Exit 1
   \<and> written (main (file_env LittleEndian (img1024 500)) ''fix'' (cmdline ''3.0.0'')) = None"
  using
    checksum_b_offset_is_half_of_size_plus_header
      [of "img1024 2000" LittleEndian "''fix''" "''3.0.0''"]
    checksum_b_offset_is_half_of_size_plus_header
      [of "img1024 1000" LittleEndian "''fix''" "''3.0.0''"]
    checksum_b_offset_is_half_of_size_plus_header
      [of "img1024 500" LittleEndian "''fix''" "''3.0.0''"]
  by (simp add: length_img1024 size_field_img1024 be_word_1024)



text \<open>
  \<^bold>\<open>C6\<close>. When \<open>fix_checksum\<close> returns, the buffer has its length on entry, and every byte
  outside the CRC member (bytes 4 to 7) and the name region (bytes 32 to 63) is the byte on
  entry: the other members of the header and the data from byte 64 on.
\<close>

theorem only_hcrc_and_name_change:
  assumes "wf_TAIL tail" and "fix_checksum e img image_len tail = Inr (img', tail')"
  shows "length img' = length img
    \<and> (\<forall>i < length img. \<not> (4 \<le> i \<and> i < 8) \<and> \<not> (32 \<le> i \<and> i < 64) \<longrightarrow> img' ! i = img ! i)"
proof -
  note p = fix_checksum_Inr_parts [OF assms]
  have "img' ! i = img ! i"
    if h: "i < length img" "\<not> (4 \<le> i \<and> i < 8)" "\<not> (32 \<le> i \<and> i < 64)" for i
  proof -
    consider "i < 4" | "8 \<le> i" "i < 32" | "64 \<le> i" using h(2,3) by fastforce
    then show ?thesis
    proof cases
      case 1
      then show ?thesis
        using nth_eq_from_slice [of 4 0 img' img i] p(1) p(2) h(1) by simp
    next
      case 2
      then show ?thesis
        using nth_eq_from_slice [of 24 8 img' img i] p(1) p(4) h(1) by simp
    next
      case 3
      then show ?thesis
        using nth_eq_from_drop [of 64 img' img i] p(1) p(6) h(1) by simp
    qed
  qed
  then show ?thesis using p(1) by simp
qed

theorem frame_witness:
  "wf_TAIL tail80 \<and> fix_checksum LittleEndian img80 80 tail80 = Inr (out80, tail80_out)
   \<and> length out80 = length img80 \<and> out80 ! 12 = img80 ! 12 \<and> out80 ! 70 = img80 ! 70"
  using only_hcrc_and_name_change [OF wf_tail80 fix_checksum_img80]
  by (simp add: wf_tail80 fix_checksum_img80 length_img80)







text \<open>
  \<^bold>\<open>C9\<close>. There are a file and a version string such that running the program on its own
  output writes something else than the first run wrote: with the example image, byte 36
  of the first output is the first byte of the name, and byte 36 of the second output is
  the kernel major version that the first run put at byte 32.
\<close>

theorem patching_the_output_again_differs:
  "\<exists>file v out1 out2.
     written (main (file_env e file) prog (cmdline v)) = Some out1
   \<and> written (main (file_env e out1) prog (cmdline v)) = Some out2
   \<and> out2 \<noteq> out1"
proof -
  let ?v = "''3.0.0.4.382.52482''"
  have c: "\<not> int (length img80) < uint (checksum_b_offset_of e img80)"
    by (simp add: length_img80 offset_img80)
  from fix_checksum_success [OF wf_tail80 _ _ c]
  obtain out1 t1 where ok1: "fix_checksum e img80 80 tail80 = Inr (out1, t1)"
    by (simp add: length_img80 offset_img80)
  note p1 = fix_checksum_Inr_parts [OF wf_tail80 ok1]
  note b1 = fix_checksum_Inr_bytes [OF wf_tail80 ok1]
  have c1: "\<not> int (length out1) < uint (checksum_b_offset_of e out1)"
    by (simp add: p1(1) b1(3) length_img80 offset_img80)
  from fix_checksum_success [OF wf_tail80 _ _ c1]
  obtain out2 t2 where ok2: "fix_checksum e out1 80 tail80 = Inr (out2, t2)"
    by (simp add: p1(1) b1(3) length_img80 offset_img80)
  note b2 = fix_checksum_Inr_bytes [OF wf_tail80 ok2]
  have "out1 ! 36 = 0x52" using b1(2) by (simp add: img80_def)
  moreover have "out2 ! 36 = 3" using b2(2) b1(1) by (simp add: tail80_def)
  ultimately have ne: "out2 \<noteq> out1" by auto
  have "written (main (file_env e img80) prog (cmdline ?v)) = Some out1"
    by (simp add: main_file_env sscanf_version_example length_img80 ok1)
  moreover have "written (main (file_env e out1) prog (cmdline ?v)) = Some out2"
    by (simp add: main_file_env sscanf_version_example p1(1) length_img80 ok2)
  ultimately show ?thesis using ne by blast
qed

text \<open>
  \<^bold>\<open>C10\<close> asks that every read is inside the buffer once the size check has passed. For the
  file \<open>img64\<close> of 64 bytes the offset is 64: \<^verbatim>\<open>image_len < checksum_b_offset\<close> is false, and
  the next statement reads \<^verbatim>\<open>image[64]\<close>, one byte past the end.
\<close>

theorem read_at_checksum_b_offset_is_outside:
  "length img64 = 64 \<and> unat (checksum_b_offset_of e img64) = 64
   \<and> \<not> (64 :: int) < uint (checksum_b_offset_of e img64)
   \<and> fix_checksum e img64 64 tail = Inl OutOfBounds
   \<and> status (main (file_env e img64) prog (cmdline v)) = Undefined"
proof -
  have c: "\<not> (64 :: int) < uint (checksum_b_offset_of e img64)"
    using offset_img64 [of e] by (simp add: uint_nat)
  have f: "fix_checksum e img64 64 t = Inl OutOfBounds" for t
    by (rule fix_checksum_b_outside) (simp_all add: length_img64 offset_img64 c)
  show ?thesis
    using c by (simp add: length_img64 offset_img64 f main_file_env Let_def)
qed

end
